theory Spec2Isabelle
  imports Complex_Main
begin

section \<open>Price extraction: \<open>PriceScraper.extract_price\<close> (scraper.py, lines 20-32)\<close>

text \<open>
  Text is a \<open>string\<close>; the digits are the ten ASCII digits. The pattern of the source is
  \<^verbatim>\<open>[\d,]+\.?\d*\<close>: a non-empty run of digits and commas, an optional point, a run of
  digits. Every part after the first run may be empty, so the greedy match never
  backtracks: it is the longest run, then the point if it is there, then the longest run
  of digits.
\<close>

definition is_digit :: "char \<Rightarrow> bool" where
  "is_digit c = (c \<in> set ''0123456789'')"

definition is_digit_or_comma :: "char \<Rightarrow> bool" where
  "is_digit_or_comma c = (is_digit c \<or> c = CHR '','')"

text \<open>The match of the pattern at the head of \<open>t\<close>, for a \<open>t\<close> that starts with a digit or a comma.\<close>

definition price_pattern_match :: "string \<Rightarrow> string" where
  "price_pattern_match t =
     (let grp = takeWhile is_digit_or_comma t;
          rest = dropWhile is_digit_or_comma t;
          dot = (case rest of [] \<Rightarrow> [] | c # _ \<Rightarrow> if c = CHR ''.'' then [c] else []);
          frac = takeWhile is_digit (drop (length dot) rest)
      in grp @ dot @ frac)"

text \<open>
  \<open>re.findall(price_pattern, text)\<close>: all matches, left to right, without overlap. A match
  starts at the next digit or comma and the scan goes on behind it.
\<close>

function findall :: "string \<Rightarrow> string list" where
  "findall text =
     (case dropWhile (\<lambda>c. \<not> is_digit_or_comma c) text of
        [] \<Rightarrow> []
      | c # cs \<Rightarrow> price_pattern_match (c # cs)
                   # findall (drop (length (price_pattern_match (c # cs))) (c # cs)))"
  by pat_completeness auto

lemma price_pattern_match_nonempty:
  "is_digit_or_comma c \<Longrightarrow> 0 < length (price_pattern_match (c # cs))"
  by (simp add: price_pattern_match_def Let_def)

lemma dropWhile_head:
  "dropWhile P xs = y # ys \<Longrightarrow> \<not> P y"
  by (metis hd_dropWhile list.sel(1) list.distinct(1))

termination findall
proof (relation "measure length")
  show "wf (measure length)" by simp
next
  fix s :: string and c cs
  assume d: "dropWhile (\<lambda>c. \<not> is_digit_or_comma c) s = c # cs"
  have "is_digit_or_comma c"
    using dropWhile_head [OF d] by simp
  then have "0 < length (price_pattern_match (c # cs))"
    by (rule price_pattern_match_nonempty)
  then have "length (c # cs) - length (price_pattern_match (c # cs)) < length (c # cs)"
    by (simp add: diff_less)
  moreover have "length (c # cs) \<le> length s"
    using length_dropWhile_le [of "\<lambda>c. \<not> is_digit_or_comma c" s] d by simp
  ultimately have "length (c # cs) - length (price_pattern_match (c # cs)) < length s"
    by (rule less_le_trans)
  then show "(drop (length (price_pattern_match (c # cs))) (c # cs), s) \<in> measure length"
    by simp
qed

declare findall.simps [simp del]

text \<open>
  \<open>float(price_str)\<close>. A string the pattern matched, with the commas removed, holds digits
  and at most one point, so of all that \<open>float\<close> accepts only this grammar can occur:
  digits, optionally a point and digits, with at least one digit in all. \<open>None\<close> is the
  \<open>ValueError\<close> that \<open>float\<close> raises on the empty string and on a lone point.

  The value is kept as the exact decimal. The double that Python returns is the correctly
  rounded image of this decimal, and the one property of the double that the control flow
  reads is whether it is zero (\<open>if price:\<close>): a decimal of at most \<open>2^-1075\<close>, half the
  least positive double, rounds to \<open>0.0\<close>, every larger one to a positive double. That
  underflow is written out; a larger value stands for its nearest double (for the
  infinity, which is true as well, when it is too large for a double).
\<close>

definition digits_value :: "string \<Rightarrow> nat" where
  "digits_value ds = foldl (\<lambda>n c. 10 * n + (of_char c - 48)) 0 ds"

definition to_double :: "rat \<Rightarrow> rat" where
  "to_double v = (if v \<le> 1 / 2 ^ 1075 then 0 else v)"

definition py_float :: "string \<Rightarrow> rat option" where
  "py_float s =
     (let ip = takeWhile (\<lambda>c. c \<noteq> CHR ''.'') s;
          fp = drop 1 (dropWhile (\<lambda>c. c \<noteq> CHR ''.'') s)
      in if list_all is_digit ip \<and> list_all is_digit fp \<and> (ip \<noteq> [] \<or> fp \<noteq> [])
         then Some (to_double (of_nat (digits_value ip)
                               + of_nat (digits_value fp) / 10 ^ length fp))
         else None)"

text \<open>\<open>None\<close> is Python's \<open>None\<close>: no match, or a match that \<open>float\<close> rejects.\<close>

definition extract_price :: "string \<Rightarrow> rat option" where
  "extract_price text =
     (case findall text of
        [] \<Rightarrow> None
      | m # _ \<Rightarrow> py_float (filter (\<lambda>c. c \<noteq> CHR '','') m))"


section \<open>Building an observation: \<open>PriceScraper.scrape_generic_product\<close> (lines 34-109)\<close>

text \<open>
  The dict the scraper returns. \<open>None\<close> in \<open>price\<close> and \<open>price_text\<close> is Python's \<open>None\<close>
  (a missing value of the table, once stored). The type of the timestamp is a parameter:
  the scraper and the store hold the formatted string, the analyzer a date-time.
\<close>

record 'ts observation =
  title :: string
  url :: string
  price :: "rat option"
  price_text :: "string option"
  timestamp :: 'ts
  status :: string

text \<open>The exceptions that can leave the functions below: a selector that the selector
  parser rejects, an index out of range, a data file that \<open>read_csv\<close> cannot read.\<close>

datatype exn = SelectorSyntaxError | IndexError | EmptyDataError

text \<open>
  The parsed page, as the scraper reads it: \<open>soup sel\<close> is what
  \<open>soup.select_one(sel)\<close> gives, \<open>Inr None\<close> when nothing matches, \<open>Inr (Some t)\<close> for a
  first matching element whose \<open>get_text(strip=True)\<close> is \<open>t\<close>, and \<open>Inl\<close> for a selector
  that the selector parser rejects. An element is always true in \<open>if element:\<close>.
\<close>

type_synonym soup = "string \<Rightarrow> exn + string option"

text \<open>
  What \<open>session.get(url, timeout=10)\<close>, \<open>raise_for_status()\<close> and the parse of the content
  come to: a page, or a \<open>requests.RequestException\<close> (timeout, connection failure, HTTP
  error status) with its message \<open>str(e)\<close>.
\<close>

datatype fetch_result = Content soup | RequestException string

definition common_selectors :: "string list" where
  \<open>common_selectors =
     [''.price'', ''.a-price-whole'', ''[data-price]'', ''.product-price'',
      ''#priceblock_dealprice'', ''#priceblock_ourprice'', ''.price-current'',
      ''[itemprop="price"]'']\<close>

text \<open>\<open>if price_selector: common_selectors.insert(0, price_selector)\<close>: \<open>None\<close> and the empty
  string are both false.\<close>

definition selectors :: "string option \<Rightarrow> string list" where
  "selectors price_selector =
     (case price_selector of
        None \<Rightarrow> common_selectors
      | Some s \<Rightarrow> if s \<noteq> [] then s # common_selectors else common_selectors)"

text \<open>\<open>if price:\<close> on the result of \<open>extract_price\<close>: \<open>None\<close> and \<open>0.0\<close> are false.\<close>

definition truthy :: "rat option \<Rightarrow> bool" where
  "truthy p = (case p of None \<Rightarrow> False | Some v \<Rightarrow> v \<noteq> 0)"

text \<open>
  The loop over the price selectors (lines 71-77), with the variables \<open>price\<close> and
  \<open>price_text\<close> as the accumulator: every matched element overwrites both, and the loop
  breaks when the price is true.
\<close>

fun price_loop ::
  "soup \<Rightarrow> string list \<Rightarrow> rat option \<times> string option \<Rightarrow> exn + (rat option \<times> string option)"
where
  "price_loop soup [] (price', price_text') = Inr (price', price_text')"
| "price_loop soup (selector # rest) (price', price_text') =
     (case soup selector of
        Inl e \<Rightarrow> Inl e
      | Inr None \<Rightarrow> price_loop soup rest (price', price_text')
      | Inr (Some element_text) \<Rightarrow>
          (if truthy (extract_price element_text)
           then Inr (extract_price element_text, Some element_text)
           else price_loop soup rest (extract_price element_text, Some element_text)))"

definition title_selectors :: "string list" where
  \<open>title_selectors = [''h1'', ''.product-title'', ''#productTitle'', ''[itemprop="name"]'']\<close>

text \<open>The loop over the title selectors (lines 82-86): it breaks at the first match.\<close>

fun title_loop :: "soup \<Rightarrow> string list \<Rightarrow> exn + string option" where
  "title_loop soup [] = Inr None"
| "title_loop soup (selector # rest) =
     (case soup selector of
        Inl e \<Rightarrow> Inl e
      | Inr None \<Rightarrow> title_loop soup rest
      | Inr (Some element_text) \<Rightarrow> Inr (Some element_text))"

text \<open>\<open>s.split(sep)\<close> for a separator of one character.\<close>

fun py_split :: "char \<Rightarrow> string \<Rightarrow> string list" where
  "py_split sep [] = [[]]"
| "py_split sep (c # cs) =
     (if c = sep then [] # py_split sep cs
      else (case py_split sep cs of [] \<Rightarrow> [[c]] | w # ws \<Rightarrow> (c # w) # ws))"

text \<open>\<open>url.split('/')[-1][:50]\<close>; the index \<open>-1\<close> raises on an empty list.\<close>

definition url_fallback_title :: "string \<Rightarrow> exn + string" where
  "url_fallback_title u =
     (case py_split CHR ''/'' u of
        [] \<Rightarrow> Inl IndexError
      | seg # segs \<Rightarrow> Inr (take 50 (last (seg # segs))))"

text \<open>Lines 88-89: \<open>if not title: title = url.split('/')[-1][:50]\<close>; \<open>None\<close> and the empty
  string are both false.\<close>

definition resolve_title :: "string option \<Rightarrow> string \<Rightarrow> exn + string" where
  "resolve_title title' u =
     (case title' of
        None \<Rightarrow> url_fallback_title u
      | Some t \<Rightarrow> if t = [] then url_fallback_title u else Inr t)"




text \<open>
  \<open>response\<close> is the outcome of the fetch, \<open>now\<close> the formatted \<open>datetime.now()\<close>. An
  exception other than \<open>RequestException\<close> is not caught and leaves the function (\<open>Inl\<close>).
\<close>

definition scrape_generic_product ::
  "fetch_result \<Rightarrow> string \<Rightarrow> string option \<Rightarrow> string \<Rightarrow> exn + string observation"
where
  "scrape_generic_product response u price_selector now =
     (case response of
        RequestException e \<Rightarrow>
          Inr \<lparr>title = u, url = u, price = None, price_text = None, timestamp = now,
               status = ''error: '' @ e\<rparr>
      | Content soup \<Rightarrow>
          (case price_loop soup (selectors price_selector) (None, None) of
             Inl e \<Rightarrow> Inl e
           | Inr (price', price_text') \<Rightarrow>
               (case title_loop soup title_selectors of
                  Inl e \<Rightarrow> Inl e
                | Inr title' \<Rightarrow>
                    (case resolve_title title' u of
                       Inl e \<Rightarrow> Inl e
                     | Inr title'' \<Rightarrow>
                         Inr \<lparr>title = title'', url = u, price = price',
                              price_text = price_text', timestamp = now,
                              status = (if truthy price' then ''success''
                                        else ''price_not_found'')\<rparr>))))"

text \<open>The loop goes past a selector that matches nothing, or an element whose price is
  false; it does not go past one that raises, nor one whose price is true.\<close>

definition passes :: "soup \<Rightarrow> string \<Rightarrow> bool" where
  "passes soup s =
     (case soup s of
        Inl e \<Rightarrow> False
      | Inr None \<Rightarrow> True
      | Inr (Some t) \<Rightarrow> \<not> truthy (extract_price t))"

section \<open>The store: \<open>PriceScraper.save_to_csv\<close> (lines 151-170) and \<open>PriceAnalyzer.load_data\<close>\<close>

text \<open>
  The data file is \<open>None\<close> when it does not exist (\<open>os.path.exists\<close> is false) and
  \<open>Some f\<close> with its content \<open>f\<close> otherwise. The two pandas functions that turn a table
  into the content of a file and back are parameters: \<open>to_csv df\<close> is the content written
  for the table \<open>df\<close>, and \<open>read_csv f\<close> the table read from the content \<open>f\<close>, or the
  exception raised for a content that cannot be read. A table is the list of its rows.
\<close>

definition key :: "'ts observation \<Rightarrow> string \<times> 'ts" where
  "key r = (url r, timestamp r)"

text \<open>\<open>drop_duplicates(subset=['url', 'timestamp'], keep='last')\<close>: a row stays when no
  later row has its key; the order of the rows that stay is kept.\<close>

fun drop_duplicates :: "'ts observation list \<Rightarrow> 'ts observation list" where
  "drop_duplicates [] = []"
| "drop_duplicates (r # rs) =
     (if key r \<in> set (map key rs) then drop_duplicates rs else r # drop_duplicates rs)"

text \<open>Returns the file as written and \<open>df_combined\<close>.\<close>

definition save_to_csv ::
  "('f \<Rightarrow> exn + string observation list) \<Rightarrow> (string observation list \<Rightarrow> 'f)
   \<Rightarrow> 'f option \<Rightarrow> string observation list
   \<Rightarrow> exn + ('f option \<times> string observation list)"
where
  "save_to_csv read_csv to_csv file data =
     (case (case file of
              None \<Rightarrow> Inr data
            | Some f \<Rightarrow>
                (case read_csv f of
                   Inl e \<Rightarrow> Inl e
                 | Inr df_existing \<Rightarrow> Inr (df_existing @ data))) of
        Inl e \<Rightarrow> Inl e
      | Inr df_combined \<Rightarrow>
          Inr (Some (to_csv (drop_duplicates df_combined)), drop_duplicates df_combined))"

text \<open>
  \<open>load_data\<close> returns its boolean and leaves the table in \<open>self.df\<close> (\<open>None\<close> as long as
  nothing was loaded). \<open>to_datetime\<close> stands for \<open>pd.to_datetime\<close> on one timestamp.
\<close>

definition with_datetime :: "(string \<Rightarrow> 'ts) \<Rightarrow> string observation \<Rightarrow> 'ts observation" where
  "with_datetime to_datetime r =
     \<lparr>title = title r, url = url r, price = price r, price_text = price_text r,
      timestamp = to_datetime (timestamp r), status = status r\<rparr>"

definition load_data ::
  "('f \<Rightarrow> exn + string observation list) \<Rightarrow> (string \<Rightarrow> 'ts) \<Rightarrow> 'f option
   \<Rightarrow> exn + (bool \<times> 'ts observation list option)"
where
  "load_data read_csv to_datetime file =
     (case file of
        None \<Rightarrow> Inr (False, None)
      | Some f \<Rightarrow>
          (case read_csv f of
             Inl e \<Rightarrow> Inl e
           | Inr df \<Rightarrow>
               Inr (True, Some (filter (\<lambda>r. price r \<noteq> None)
                                  (map (with_datetime to_datetime) df)))))"



section \<open>Example pages\<close>

text \<open>A page given by the selectors that match on it, each with the text of its first
  element; no selector is rejected.\<close>

definition page_of :: "(string \<times> string) list \<Rightarrow> soup" where
  "page_of elems sel = Inr (map_of elems sel)"

section \<open>Example rows\<close>

text \<open>Two rows of the demo data, a second reading of the first product at the same
  second, a row with a price and an empty price text, and the observation of a fetch that
  timed out.\<close>

definition laptop_row :: "string observation" where
  "laptop_row =
     \<lparr>title = ''Laptop Computer'', url = ''https://example.com/laptop-computer'',
      price = Some 899.99, price_text = None, timestamp = ''2024-01-01 12:00:00'',
      status = ''success''\<rparr>"

definition mouse_row :: "string observation" where
  "mouse_row =
     \<lparr>title = ''Wireless Mouse'', url = ''https://example.com/wireless-mouse'',
      price = Some 29.99, price_text = None, timestamp = ''2024-01-01 12:00:00'',
      status = ''success''\<rparr>"

definition laptop_row_again :: "string observation" where
  "laptop_row_again =
     \<lparr>title = ''Laptop Computer'', url = ''https://example.com/laptop-computer'',
      price = Some 879.99, price_text = None, timestamp = ''2024-01-01 12:00:00'',
      status = ''success''\<rparr>"


definition timeout_row :: "string observation" where
  "timeout_row =
     \<lparr>title = ''https://x.com/cool-gadget'', url = ''https://x.com/cool-gadget'',
      price = None, price_text = None, timestamp = ''2024-01-01 12:00:05'',
      status = ''error: Read timed out.''\<rparr>"

section \<open>The price extractor\<close>

lemma set_optional_point:
  "set (case xs of [] \<Rightarrow> [] | c # _ \<Rightarrow> if c = CHR ''.'' then [c] else []) \<subseteq> set xs"
  by (cases xs) auto

lemma set_price_pattern_match: "set (price_pattern_match t) \<subseteq> set t"
proof -
  let ?rest = "dropWhile is_digit_or_comma t"
  have r: "set ?rest \<subseteq> set t"
    by (auto dest: set_dropWhileD)
  have g: "set (takeWhile is_digit_or_comma t) \<subseteq> set t"
    by (auto dest: set_takeWhileD)
  have f: "set (takeWhile is_digit (drop n ?rest)) \<subseteq> set ?rest" for n
    by (auto dest: set_takeWhileD in_set_dropD)
  show ?thesis
    unfolding price_pattern_match_def Let_def set_append
    using g r set_optional_point [of ?rest] f by blast
qed

lemma findall_first_subset: "findall s = m # ms \<Longrightarrow> set m \<subseteq> set s"
proof -
  assume f: "findall s = m # ms"
  let ?t = "dropWhile (\<lambda>c. \<not> is_digit_or_comma c) s"
  from f have "m = price_pattern_match ?t"
    by (subst (asm) findall.simps) (auto split: list.splits)
  moreover have "set ?t \<subseteq> set s"
    by (auto dest: set_dropWhileD)
  ultimately show ?thesis
    using set_price_pattern_match [of ?t] by auto
qed

lemma list_all_digit_free:
  "\<forall>c\<in>set s. \<not> is_digit c \<Longrightarrow> set xs \<subseteq> set s \<Longrightarrow> list_all is_digit xs \<Longrightarrow> xs = []"
  by (cases xs) auto

lemma py_float_digit_free:
  assumes "\<forall>c\<in>set s. \<not> is_digit c"
  shows "py_float s = None"
proof -
  let ?ip = "takeWhile (\<lambda>c. c \<noteq> CHR ''.'') s"
  let ?fp = "drop 1 (dropWhile (\<lambda>c. c \<noteq> CHR ''.'') s)"
  have "set ?ip \<subseteq> set s"
    by (auto dest: set_takeWhileD)
  then have ip: "list_all is_digit ?ip \<Longrightarrow> ?ip = []"
    by (rule list_all_digit_free [OF assms])
  have "set ?fp \<subseteq> set s"
    by (auto dest: in_set_dropD set_dropWhileD)
  then have fp: "list_all is_digit ?fp \<Longrightarrow> ?fp = []"
    by (rule list_all_digit_free [OF assms])
  have "\<not> (list_all is_digit ?ip \<and> list_all is_digit ?fp \<and> (?ip \<noteq> [] \<or> ?fp \<noteq> []))"
    using ip fp by blast
  then show ?thesis
    unfolding py_float_def Let_def by (simp only: if_False)
qed


text \<open>
  C6: on a text without any digit (the empty text, commas, points and letters only)
  \<open>extract_price\<close> returns \<open>None\<close>. A run of commas does match the pattern, and \<open>float\<close>
  rejects what is left of it; the source catches that \<open>ValueError\<close>, so nothing is raised.
\<close>

theorem extract_price_no_digit:
  "\<forall>c\<in>set s. \<not> is_digit c \<Longrightarrow> extract_price s = None"
proof (cases "findall s")
  case Nil
  then show ?thesis by (simp add: extract_price_def)
next
  case (Cons m ms)
  assume nd: "\<forall>c\<in>set s. \<not> is_digit c"
  have "set (filter (\<lambda>c. c \<noteq> CHR '','') m) \<subseteq> set s"
    using findall_first_subset [OF Cons] by auto
  with nd have "\<forall>c\<in>set (filter (\<lambda>c. c \<noteq> CHR '','') m). \<not> is_digit c"
    by blast
  then have "py_float (filter (\<lambda>c. c \<noteq> CHR '','') m) = None"
    by (rule py_float_digit_free)
  with Cons show ?thesis by (simp add: extract_price_def)
qed

theorem extract_price_no_digit_witness:
  "filter is_digit '', abc.,'' = [] \<and> extract_price '', abc.,'' = None \<and> extract_price [] = None"
proof -
  have nd: "\<forall>c\<in>set '', abc.,''. \<not> is_digit c"
    by (simp add: is_digit_def)
  show ?thesis
    using extract_price_no_digit [OF nd] extract_price_no_digit [of "[]"]
    by (simp add: is_digit_def)
qed

text \<open>Evaluation of the extractor on the texts of the examples.\<close>

lemmas eval_price = is_digit_or_comma_def is_digit_def price_pattern_match_def py_float_def
  digits_value_def to_double_def

lemma extract_price_0: "extract_price ''0'' = Some 0"
  by (subst extract_price_def, subst findall.simps) (simp add: eval_price)

lemma extract_price_5: "extract_price ''5'' = Some 5"
  by (subst extract_price_def, subst findall.simps) (simp add: eval_price)

lemma extract_price_0_00: "extract_price ''$0.00'' = Some 0"
  by (subst extract_price_def, subst findall.simps) (simp add: eval_price)

lemma extract_price_19_99: "extract_price ''$19.99'' = Some 19.99"
  by (subst extract_price_def, subst findall.simps) (simp add: eval_price)

lemma extract_price_call_us: "extract_price ''Call us'' = None"
  by (subst extract_price_def, subst findall.simps) (simp add: eval_price)

lemma dropWhile_skip:
  "\<forall>c\<in>set pre. P c \<Longrightarrow> \<not> P c \<Longrightarrow> dropWhile P (pre @ c # cs) = c # cs"
  by (induction pre) auto

lemma findall_skip:
  assumes "\<forall>c\<in>set pre. \<not> is_digit_or_comma c" and "is_digit_or_comma c"
  shows "findall (pre @ c # cs) =
           price_pattern_match (c # cs)
           # findall (drop (length (price_pattern_match (c # cs))) (c # cs))"
proof -
  have "dropWhile (\<lambda>c. \<not> is_digit_or_comma c) (pre @ c # cs) = c # cs"
    using assms by (intro dropWhile_skip) auto
  then show ?thesis
    by (subst findall.simps) simp
qed

lemma point_not_digit_or_comma: "\<not> is_digit_or_comma CHR ''.''"
  by (simp add: is_digit_or_comma_def is_digit_def)

lemma digit_is_digit_or_comma: "is_digit c \<Longrightarrow> is_digit_or_comma c"
  by (simp add: is_digit_or_comma_def)

lemma takeWhile_run: "\<forall>c\<in>set xs. P c \<Longrightarrow> takeWhile P ys = [] \<Longrightarrow> takeWhile P (xs @ ys) = xs"
  by (induction xs) auto

lemma dropWhile_run: "\<forall>c\<in>set xs. P c \<Longrightarrow> takeWhile P ys = [] \<Longrightarrow> dropWhile P (xs @ ys) = ys"
  by (induction xs) (auto simp: takeWhile_eq_Nil_iff dropWhile_eq_self_iff)

lemma price_pattern_match_with_point:
  assumes grp: "\<forall>c\<in>set grp. is_digit_or_comma c"
      and fs: "\<forall>c\<in>set fs. is_digit c"
      and tail: "takeWhile is_digit tail = []"
  shows "price_pattern_match (grp @ CHR ''.'' # fs @ tail) = grp @ CHR ''.'' # fs"
proof -
  let ?r = "CHR ''.'' # fs @ tail"
  have r: "takeWhile is_digit_or_comma ?r = []"
    by (simp add: point_not_digit_or_comma)
  have "takeWhile is_digit_or_comma (grp @ ?r) = grp"
    using grp r by (rule takeWhile_run)
  moreover have "dropWhile is_digit_or_comma (grp @ ?r) = ?r"
    using grp r by (rule dropWhile_run)
  moreover have "takeWhile is_digit (fs @ tail) = fs"
    using fs tail by (rule takeWhile_run)
  ultimately show ?thesis
    by (simp add: price_pattern_match_def)
qed

lemma price_pattern_match_no_point:
  assumes grp: "\<forall>c\<in>set grp. is_digit_or_comma c"
      and tail: "takeWhile (\<lambda>c. is_digit_or_comma c \<or> c = CHR ''.'') tail = []"
  shows "price_pattern_match (grp @ tail) = grp"
proof -
  have t: "takeWhile is_digit_or_comma tail = []" "takeWhile is_digit tail = []"
    "(case tail of [] \<Rightarrow> [] | c # _ \<Rightarrow> if c = CHR ''.'' then [c] else []) = []"
    using tail by (cases tail; auto simp: digit_is_digit_or_comma split: if_splits)+
  have "takeWhile is_digit_or_comma (grp @ tail) = grp"
    using grp t(1) by (rule takeWhile_run)
  moreover have "dropWhile is_digit_or_comma (grp @ tail) = tail"
    using grp t(1) by (rule dropWhile_run)
  ultimately show ?thesis
    using t by (simp add: price_pattern_match_def)
qed

lemma digit_not_point: "is_digit c \<Longrightarrow> c \<noteq> CHR ''.''"
  by (auto simp: is_digit_def)

lemma digit_not_comma: "is_digit c \<Longrightarrow> c \<noteq> CHR '',''"
  by (auto simp: is_digit_def)

lemma py_float_decimal:
  assumes ds: "\<forall>c\<in>set ds. is_digit c" and fs: "\<forall>c\<in>set fs. is_digit c"
      and ne: "ds \<noteq> [] \<or> fs \<noteq> []"
  shows "py_float (ds @ CHR ''.'' # fs) =
           Some (to_double (of_nat (digits_value ds) + of_nat (digits_value fs) / 10 ^ length fs))"
proof -
  have p: "\<forall>c\<in>set ds. c \<noteq> CHR ''.''"
    using ds digit_not_point by blast
  have "takeWhile (\<lambda>c. c \<noteq> CHR ''.'') (ds @ CHR ''.'' # fs) = ds"
    using p by (intro takeWhile_run) auto
  moreover have "dropWhile (\<lambda>c. c \<noteq> CHR ''.'') (ds @ CHR ''.'' # fs) = CHR ''.'' # fs"
    using p by (intro dropWhile_run) auto
  ultimately show ?thesis
    using ds fs ne by (simp add: py_float_def list_all_iff)
qed

lemma py_float_integer:
  assumes ds: "\<forall>c\<in>set ds. is_digit c" and ne: "ds \<noteq> []"
  shows "py_float ds = Some (to_double (of_nat (digits_value ds)))"
proof -
  have p: "\<forall>c\<in>set ds. c \<noteq> CHR ''.''"
    using ds digit_not_point by blast
  then have tk: "takeWhile (\<lambda>c. c \<noteq> CHR ''.'') ds = ds"
    and dr: "dropWhile (\<lambda>c. c \<noteq> CHR ''.'') ds = []"
    by (simp_all add: takeWhile_eq_all_conv)
  show ?thesis
    unfolding py_float_def Let_def tk dr
    using ds ne by (simp add: list_all_iff digits_value_def)
qed

lemma strip_commas:
  assumes "\<forall>c\<in>set grp. is_digit_or_comma c"
  shows "filter (\<lambda>c. c \<noteq> CHR '','') grp = filter is_digit grp"
  using assms by (induction grp) (auto simp: is_digit_or_comma_def digit_not_comma)

lemma strip_commas_digits: "\<forall>c\<in>set fs. is_digit c \<Longrightarrow> filter (\<lambda>c. c \<noteq> CHR '','') fs = fs"
  by (induction fs) (auto simp: digit_not_comma)


text \<open>
  C5: \<open>extract_price\<close> parses the first match of the pattern only, with the commas of the
  match removed. Take any text that begins with characters that are neither digits nor
  commas, followed by a run of digits and commas. With a point and digits behind the
  run, and no further digit behind those, the first match is the run, the point and
  these digits; without a point behind the run the first match is the run. The result
  is the number written by the digits of the run and the digits behind the point,
  \<open>None\<close> when the match has no digit at all, whatever follows the match: \<open>findall\<close> goes
  on to later matches, and they are not used. So \<open>$1,234.56 extra\<close> gives \<open>1234.56\<close> and
  \<open>12.34.56\<close> gives \<open>12.34\<close>.
\<close>

theorem extract_price_first_match:
  assumes pre: "\<forall>c\<in>set pre. \<not> is_digit_or_comma c"
      and grp: "grp \<noteq> []" "\<forall>c\<in>set grp. is_digit_or_comma c"
      and fs: "\<forall>c\<in>set fs. is_digit c"
      and rest: "takeWhile is_digit rest = []"
      and rest': "takeWhile (\<lambda>c. is_digit_or_comma c \<or> c = CHR ''.'') rest' = []"
  shows "findall (pre @ grp @ ''.'' @ fs @ rest) = (grp @ ''.'' @ fs) # findall rest
         \<and> findall (pre @ grp @ rest') = grp # findall rest'
         \<and> extract_price (pre @ grp @ ''.'' @ fs @ rest)
             = py_float (filter (\<lambda>c. c \<noteq> CHR '','') (grp @ ''.'' @ fs))
         \<and> extract_price (pre @ grp @ rest') = py_float (filter (\<lambda>c. c \<noteq> CHR '','') grp)
         \<and> (filter is_digit grp \<noteq> [] \<or> fs \<noteq> [] \<longrightarrow>
              extract_price (pre @ grp @ ''.'' @ fs @ rest)
              = Some (to_double (of_nat (digits_value (filter is_digit grp))
                                 + of_nat (digits_value fs) / 10 ^ length fs)))
         \<and> (filter is_digit grp = [] \<and> fs = [] \<longrightarrow>
              extract_price (pre @ grp @ ''.'' @ fs @ rest) = None)
         \<and> (filter is_digit grp \<noteq> [] \<longrightarrow>
              extract_price (pre @ grp @ rest')
              = Some (to_double (of_nat (digits_value (filter is_digit grp)))))
         \<and> (filter is_digit grp = [] \<longrightarrow> extract_price (pre @ grp @ rest') = None)
         \<and> extract_price ''$1,234.56 extra'' = Some 1234.56
         \<and> extract_price ''12.34.56'' = Some 12.34"
proof -
  obtain g gs where g: "grp = g # gs" "is_digit_or_comma g"
    using grp by (cases grp) auto
  let ?m = "grp @ CHR ''.'' # fs"
  have m: "price_pattern_match (?m @ rest) = ?m"
    using price_pattern_match_with_point [OF grp(2) fs rest] by simp
  have "findall (pre @ g # (gs @ CHR ''.'' # fs @ rest)) =
          price_pattern_match (g # (gs @ CHR ''.'' # fs @ rest))
          # findall (drop (length (price_pattern_match (g # (gs @ CHR ''.'' # fs @ rest))))
              (g # (gs @ CHR ''.'' # fs @ rest)))"
    using pre g(2) by (rule findall_skip)
  moreover have "g # (gs @ CHR ''.'' # fs @ rest) = ?m @ rest"
    using g(1) by simp
  ultimately have f1: "findall (pre @ ?m @ rest) = ?m # findall rest"
    using m by simp
  have m': "price_pattern_match (grp @ rest') = grp"
    using grp(2) rest' by (rule price_pattern_match_no_point)
  have "findall (pre @ g # (gs @ rest')) =
          price_pattern_match (g # (gs @ rest'))
          # findall (drop (length (price_pattern_match (g # (gs @ rest')))) (g # (gs @ rest')))"
    using pre g(2) by (rule findall_skip)
  moreover have "g # (gs @ rest') = grp @ rest'"
    using g(1) by simp
  ultimately have f2: "findall (pre @ grp @ rest') = grp # findall rest'"
    using m' by simp
  have e1: "extract_price (pre @ ?m @ rest) = py_float (filter (\<lambda>c. c \<noteq> CHR '','') ?m)"
    by (simp only: extract_price_def f1 list.case)
  have e2: "extract_price (pre @ grp @ rest') = py_float (filter (\<lambda>c. c \<noteq> CHR '','') grp)"
    by (simp only: extract_price_def f2 list.case)
  have sm: "filter (\<lambda>c. c \<noteq> CHR '','') ?m = filter is_digit grp @ CHR ''.'' # fs"
    using strip_commas [OF grp(2)] strip_commas_digits [OF fs] by simp
  have dg: "\<forall>c\<in>set (filter is_digit grp). is_digit c"
    by simp
  have v1: "extract_price (pre @ ?m @ rest)
      = Some (to_double (of_nat (digits_value (filter is_digit grp))
                         + of_nat (digits_value fs) / 10 ^ length fs))"
    if h: "filter is_digit grp \<noteq> [] \<or> fs \<noteq> []"
    using py_float_decimal [OF dg fs h] by (simp only: e1 sm)
  have pt: "py_float ''.'' = None" "py_float [] = None"
    by (rule py_float_digit_free, simp add: is_digit_def)+
  have n1: "extract_price (pre @ ?m @ rest) = None" if h: "filter is_digit grp = [] \<and> fs = []"
  proof -
    have "filter (\<lambda>c. c \<noteq> CHR '','') ?m = ''.''"
      using sm h by simp
    then have "extract_price (pre @ ?m @ rest) = py_float ''.''"
      by (simp only: e1)
    then show ?thesis by (simp only: pt)
  qed
  have v2: "extract_price (pre @ grp @ rest')
            = Some (to_double (of_nat (digits_value (filter is_digit grp))))"
    if h: "filter is_digit grp \<noteq> []"
    using py_float_integer [OF dg h] by (simp only: e2 strip_commas [OF grp(2)])
  have n2: "extract_price (pre @ grp @ rest') = None" if h: "filter is_digit grp = []"
  proof -
    have "filter (\<lambda>c. c \<noteq> CHR '','') grp = []"
      using strip_commas [OF grp(2)] h by simp
    then have "extract_price (pre @ grp @ rest') = py_float []"
      by (simp only: e2)
    then show ?thesis by (simp only: pt)
  qed
  have c1: "extract_price ''$1,234.56 extra'' = Some 1234.56"
    by (subst extract_price_def, subst findall.simps) (simp add: eval_price)
  have c2: "extract_price ''12.34.56'' = Some 12.34"
    by (subst extract_price_def, subst findall.simps) (simp add: eval_price)
  have a: "pre @ grp @ ''.'' @ fs @ rest = pre @ ?m @ rest" "grp @ ''.'' @ fs = ?m"
    by simp_all
  show ?thesis
    unfolding a using f1 f2 e1 e2 v1 n1 v2 n2 c1 c2 by (intro conjI impI) assumption+
qed


theorem extract_price_first_match_witness:
  "extract_price ''$1,234.56 and $9.99'' = Some 1234.56
   \<and> findall ''12.34.5678'' = ''12.34'' # findall ''.5678''
   \<and> extract_price ''12.34.5678'' = Some 12.34
   \<and> extract_price ''Was $50, now $30'' = Some 50
   \<and> extract_price ''Price: ,. 7'' = None"
proof -
  have d: "is_digit_or_comma c = (c \<in> set ''0123456789,'')" for c
    by (auto simp: is_digit_or_comma_def is_digit_def)
  have nil: "takeWhile is_digit [] = []"
    "takeWhile (\<lambda>c. is_digit_or_comma c \<or> c = CHR ''.'') [] = []"
    by simp_all
  have A: "filter is_digit ''1,234'' \<noteq> [] \<or> ''56'' \<noteq> [] \<longrightarrow>
      extract_price (''$'' @ ''1,234'' @ ''.'' @ ''56'' @ '' and $9.99'')
      = Some (to_double (of_nat (digits_value (filter is_digit ''1,234''))
                         + of_nat (digits_value ''56'') / 10 ^ length ''56''))"
    by (rule extract_price_first_match [where rest' = "[]", THEN conjunct2, THEN conjunct2,
          THEN conjunct2, THEN conjunct2, THEN conjunct1])
      (simp_all add: d is_digit_def)
  have B: "findall ([] @ ''12'' @ ''.'' @ ''34'' @ ''.5678'') = (''12'' @ ''.'' @ ''34'') # findall ''.5678''"
    by (rule extract_price_first_match [where rest' = "[]", THEN conjunct1])
      (simp_all add: d is_digit_def)
  have B': "filter is_digit ''12'' \<noteq> [] \<or> ''34'' \<noteq> [] \<longrightarrow>
      extract_price ([] @ ''12'' @ ''.'' @ ''34'' @ ''.5678'')
      = Some (to_double (of_nat (digits_value (filter is_digit ''12''))
                         + of_nat (digits_value ''34'') / 10 ^ length ''34''))"
    by (rule extract_price_first_match [where rest' = "[]", THEN conjunct2, THEN conjunct2,
          THEN conjunct2, THEN conjunct2, THEN conjunct1])
      (simp_all add: d is_digit_def)
  have C: "filter is_digit ''50,'' \<noteq> [] \<longrightarrow>
      extract_price (''Was $'' @ ''50,'' @ '' now $30'')
      = Some (to_double (of_nat (digits_value (filter is_digit ''50,''))))"
    by (rule extract_price_first_match [where fs = "[]" and rest = "[]", THEN conjunct2,
          THEN conjunct2, THEN conjunct2, THEN conjunct2, THEN conjunct2, THEN conjunct2,
          THEN conjunct1])
      (simp_all add: d is_digit_def)
  have D: "filter is_digit '','' = [] \<and> ([] :: string) = [] \<longrightarrow>
      extract_price (''Price: '' @ '','' @ ''.'' @ [] @ '' 7'') = None"
    by (rule extract_price_first_match [where rest' = "[]", THEN conjunct2, THEN conjunct2,
          THEN conjunct2, THEN conjunct2, THEN conjunct2, THEN conjunct1])
      (simp_all add: d is_digit_def)
  have 1: "extract_price ''$1,234.56 and $9.99'' = Some 1234.56"
    using A by (simp add: is_digit_def digits_value_def to_double_def)
  have 2: "findall ''12.34.5678'' = ''12.34'' # findall ''.5678''"
    using B by simp
  have 3: "extract_price ''12.34.5678'' = Some 12.34"
    using B' by (simp add: is_digit_def digits_value_def to_double_def)
  have 4: "extract_price ''Was $50, now $30'' = Some 50"
    using C by (simp add: is_digit_def digits_value_def to_double_def)
  have 5: "extract_price ''Price: ,. 7'' = None"
    using D by (simp add: is_digit_def)
  from 1 2 3 4 5 show ?thesis by (intro conjI)
qed

section \<open>The selector chain and the title\<close>

lemma price_loop_no_element:
  "soup s = Inr None \<Longrightarrow> price_loop soup (s # rest) acc = price_loop soup rest acc"
  by (cases acc) simp

lemma price_loop_true_price:
  "soup s = Inr (Some t) \<Longrightarrow> truthy (extract_price t)
   \<Longrightarrow> price_loop soup (s # rest) acc = Inr (extract_price t, Some t)"
  by (cases acc) simp

lemma price_loop_false_price:
  "soup s = Inr (Some t) \<Longrightarrow> \<not> truthy (extract_price t)
   \<Longrightarrow> price_loop soup (s # rest) acc = price_loop soup rest (extract_price t, Some t)"
  by (cases acc) simp

lemma price_loop_raise:
  "soup s = Inl e \<Longrightarrow> price_loop soup (s # rest) acc = Inl e"
  by (cases acc) simp

lemma passes_cases:
  assumes "passes soup s"
  obtains "soup s = Inr None" | t where "soup s = Inr (Some t)" "\<not> truthy (extract_price t)"
  using assms unfolding passes_def by (auto split: sum.splits option.splits)

lemma price_loop_past:
  "\<forall>x\<in>set pre. passes soup x \<Longrightarrow> \<not> truthy (fst acc)
   \<Longrightarrow> \<exists>acc'. \<not> truthy (fst acc') \<and> price_loop soup (pre @ rest) acc = price_loop soup rest acc'"
proof (induction pre arbitrary: acc)
  case Nil
  then show ?case by (intro exI [of _ acc]) simp
next
  case (Cons x pre)
  from Cons.prems have px: "passes soup x" and ppre: "\<forall>x\<in>set pre. passes soup x"
    by simp_all
  from px show ?case
  proof (cases rule: passes_cases)
    case 1
    then have "price_loop soup ((x # pre) @ rest) acc = price_loop soup (pre @ rest) acc"
      by (simp add: price_loop_no_element)
    with Cons.IH [OF ppre Cons.prems(2)] show ?thesis by simp
  next
    case (2 t)
    then have "price_loop soup ((x # pre) @ rest) acc
               = price_loop soup (pre @ rest) (extract_price t, Some t)"
      by (simp add: price_loop_false_price)
    moreover have "\<not> truthy (fst (extract_price t, Some t))"
      using 2 by simp
    ultimately show ?thesis
      using Cons.IH [OF ppre, of "(extract_price t, Some t)"] by simp
  qed
qed

lemma price_loop_first_true:
  assumes "\<forall>x\<in>set pre. passes soup x" "soup s = Inr (Some t)" "truthy (extract_price t)"
  shows "price_loop soup (pre @ s # rest) acc = Inr (extract_price t, Some t)"
  using assms(1)
proof (induction pre arbitrary: acc)
  case Nil
  then show ?case using assms(2,3) by (simp add: price_loop_true_price)
next
  case (Cons x pre)
  from Cons.prems have px: "passes soup x" and ppre: "\<forall>x\<in>set pre. passes soup x"
    by simp_all
  from px show ?case
  proof (cases rule: passes_cases)
    case 1
    then show ?thesis using Cons.IH [OF ppre] by (simp add: price_loop_no_element)
  next
    case (2 t')
    then show ?thesis using Cons.IH [OF ppre] by (simp add: price_loop_false_price)
  qed
qed

lemma price_loop_all_pass:
  "\<forall>x\<in>set sels. passes soup x \<Longrightarrow> \<not> truthy (fst acc)
   \<Longrightarrow> \<exists>p pt. price_loop soup sels acc = Inr (p, pt) \<and> \<not> truthy p"
  using price_loop_past [of sels soup acc "[]"]
  by (metis append_Nil2 price_loop.simps(1) prod.collapse)

lemma price_loop_not_pass:
  "price_loop soup sels acc = Inr (p, pt) \<Longrightarrow> \<exists>s\<in>set sels. \<not> passes soup s \<Longrightarrow> truthy p"
proof (induction sels arbitrary: acc)
  case Nil
  then show ?case by simp
next
  case (Cons x sels)
  show ?case
  proof (cases "soup x")
    case (Inl e)
    then show ?thesis using Cons.prems(1) by (simp add: price_loop_raise)
  next
    case (Inr m)
    show ?thesis
    proof (cases m)
      case None
      with Inr have x: "soup x = Inr None" by simp
      then have "passes soup x" by (simp add: passes_def)
      with Cons.prems(2) have "\<exists>s\<in>set sels. \<not> passes soup s" by auto
      moreover from x Cons.prems(1) have "price_loop soup sels acc = Inr (p, pt)"
        by (simp add: price_loop_no_element)
      ultimately show ?thesis by (rule Cons.IH [rotated])
    next
      case (Some t)
      with Inr have x: "soup x = Inr (Some t)" by simp
      show ?thesis
      proof (cases "truthy (extract_price t)")
        case True
        with x Cons.prems(1) show ?thesis by (simp add: price_loop_true_price)
      next
        case False
        with x have "passes soup x" by (simp add: passes_def)
        with Cons.prems(2) have "\<exists>s\<in>set sels. \<not> passes soup s" by auto
        moreover from x False Cons.prems(1)
        have "price_loop soup sels (extract_price t, Some t) = Inr (p, pt)"
          by (simp add: price_loop_false_price)
        ultimately show ?thesis by (rule Cons.IH [rotated])
      qed
    qed
  qed
qed

lemma price_loop_no_match:
  "\<forall>x\<in>set post. soup x = Inr None \<Longrightarrow> price_loop soup post acc = Inr acc"
  by (induction post arbitrary: acc) (auto simp: price_loop_no_element)


lemma py_split_nonempty: "py_split sep s \<noteq> []"
  by (induction s) (auto split: list.splits)

lemma url_fallback_title_total:
  "url_fallback_title u = Inr (take 50 (last (py_split CHR ''/'' u)))"
  using py_split_nonempty [of "CHR ''/''" u]
  by (cases "py_split CHR ''/'' u") (simp_all add: url_fallback_title_def)

lemma resolve_title_total: "\<exists>t. resolve_title ttl u = Inr t"
  by (simp add: resolve_title_def url_fallback_title_total split: option.splits)

lemma scrape_content:
  assumes "price_loop soup (selectors sel) (None, None) = Inr (p, pt)"
      and "title_loop soup title_selectors = Inr ttl"
  shows "\<exists>t. resolve_title ttl u = Inr t \<and> scrape_generic_product (Content soup) u sel now =
           Inr \<lparr>title = t, url = u, price = p, price_text = pt, timestamp = now,
                status = (if truthy p then ''success'' else ''price_not_found'')\<rparr>"
proof -
  obtain t where t: "resolve_title ttl u = Inr t"
    using resolve_title_total by blast
  show ?thesis
    using assms t by (simp add: scrape_generic_product_def)
qed


lemmas eval_page = page_of_def selectors_def common_selectors_def title_selectors_def
  scrape_generic_product_def resolve_title_def url_fallback_title_def truthy_def

lemma title_loop_widget:
  "title_loop (page_of ((''h1'', ''Widget'') # elems)) title_selectors = Inr (Some ''Widget'')"
  by (simp add: page_of_def title_selectors_def)


text \<open>
  C2 as stated, with a parsed value of 0 among the values that stop the loop, does not
  hold. On the page whose \<open>.price\<close> element reads \<open>0\<close> and whose \<open>.a-price-whole\<close> element
  reads \<open>5\<close>, the first locator matches and its text parses to the number 0, which is not
  \<open>None\<close>; the loop goes on all the same, and the price of the observation is 5.
\<close>

theorem zero_price_does_not_stop_counterexample:
  "page_of [(''.price'', ''0''), (''.a-price-whole'', ''5'')] ''.price'' = Inr (Some ''0'')
   \<and> extract_price ''0'' = Some 0
   \<and> scrape_generic_product (Content (page_of [(''.price'', ''0''), (''.a-price-whole'', ''5'')]))
        ''https://x.com/cool-gadget'' None ''2024-01-01 12:00:00''
      = Inr \<lparr>title = ''cool-gadget'', url = ''https://x.com/cool-gadget'', price = Some 5,
             price_text = Some ''5'', timestamp = ''2024-01-01 12:00:00'', status = ''success''\<rparr>"
  by (simp add: eval_page extract_price_0 extract_price_5)


text \<open>
  C2, amended: when the loop comes to a locator (every locator before it matched nothing
  or gave a false price) that matches an element whose text parses to a value other than
  0, the loop stops there and that value is the price: of the loop, for every page, every
  list of locators and every state of the loop, and of the observation, whose status is
  then \<open>success\<close>. A parsed value of 0 does not stop the loop: it goes on with the next
  locator, carrying the 0 and the text along.
\<close>

theorem price_loop_stops_at_nonzero_price:
  assumes "\<forall>x\<in>set pre. passes soup x"
      and "soup s = Inr (Some t)"
      and "extract_price t = Some v"
  shows "(v \<noteq> 0 \<longrightarrow> price_loop soup (pre @ s # rest) acc = Inr (Some v, Some t))
         \<and> (v \<noteq> 0 \<and> selectors sel = pre @ s # rest \<and> title_loop soup title_selectors = Inr ttl
              \<longrightarrow> (\<exists>ttl'. scrape_generic_product (Content soup) u sel now =
                     Inr \<lparr>title = ttl', url = u, price = Some v, price_text = Some t,
                          timestamp = now, status = ''success''\<rparr>))
         \<and> (v = 0 \<longrightarrow> price_loop soup (s # rest) acc = price_loop soup rest (Some 0, Some t))"
proof (intro conjI impI)
  assume "v \<noteq> 0"
  then have "truthy (extract_price t)"
    using assms(3) by (simp add: truthy_def)
  from price_loop_first_true [OF assms(1,2) this] assms(3)
  show "price_loop soup (pre @ s # rest) acc = Inr (Some v, Some t)"
    by simp
next
  assume a: "v \<noteq> 0 \<and> selectors sel = pre @ s # rest \<and> title_loop soup title_selectors = Inr ttl"
  then have tr: "truthy (extract_price t)"
    using assms(3) by (simp add: truthy_def)
  have "price_loop soup (selectors sel) (None, None) = Inr (Some v, Some t)"
    using price_loop_first_true [OF assms(1,2) tr] assms(3) a by simp
  from scrape_content [OF this, of ttl u now] a
  show "\<exists>ttl'. scrape_generic_product (Content soup) u sel now =
          Inr \<lparr>title = ttl', url = u, price = Some v, price_text = Some t,
               timestamp = now, status = ''success''\<rparr>"
    by (auto simp: truthy_def)
next
  assume "v = 0"
  then have "\<not> truthy (extract_price t)"
    using assms(3) by (simp add: truthy_def)
  from price_loop_false_price [of soup s t, OF assms(2) this] assms(3) \<open>v = 0\<close>
  show "price_loop soup (s # rest) acc = price_loop soup rest (Some 0, Some t)"
    by simp
qed

theorem price_loop_stops_at_nonzero_price_witness:
  "price_loop (page_of [(''h1'', ''Widget''), (''.price'', ''Call us''), (''.product-price'', ''$19.99'')])
     common_selectors (None, None) = Inr (Some 19.99, Some ''$19.99'')
   \<and> scrape_generic_product
        (Content (page_of [(''h1'', ''Widget''), (''.price'', ''Call us''), (''.product-price'', ''$19.99'')]))
        ''https://x.com/w'' None ''2024-01-01 12:00:00''
      = Inr \<lparr>title = ''Widget'', url = ''https://x.com/w'', price = Some 19.99,
             price_text = Some ''$19.99'', timestamp = ''2024-01-01 12:00:00'', status = ''success''\<rparr>
   \<and> price_loop (page_of [(''.price'', ''0'')]) common_selectors (None, None)
      = price_loop (page_of [(''.price'', ''0'')]) (tl common_selectors) (Some 0, Some ''0'')"
proof -
  let ?pg = "page_of [(''h1'', ''Widget''), (''.price'', ''Call us''), (''.product-price'', ''$19.99'')]"
  let ?pre = "[''.price'', ''.a-price-whole'', ''[data-price]'']"
  let ?rest = "drop 4 common_selectors"
  have p: "\<forall>x\<in>set ?pre. passes ?pg x"
    by (simp add: passes_def page_of_def extract_price_call_us truthy_def)
  have s: "?pg ''.product-price'' = Inr (Some ''$19.99'')"
    by (simp add: page_of_def)
  have cs4: "?pre @ ''.product-price'' # ?rest = common_selectors"
    by (simp add: common_selectors_def)
  have sel: "selectors None = common_selectors"
    by (simp add: selectors_def)
  have z: "page_of [(''.price'', ''0'')] ''.price'' = Inr (Some ''0'')"
    by (simp add: page_of_def)
  have cs: "''.price'' # tl common_selectors = common_selectors"
    by (simp add: common_selectors_def)
  note a = price_loop_stops_at_nonzero_price [where soup = ?pg and s = "''.product-price''"
      and rest = ?rest and acc = "(None, None)" and sel = None and ttl = "Some ''Widget''"
      and u = "''https://x.com/w''" and now = "''2024-01-01 12:00:00''",
      OF p s extract_price_19_99, unfolded cs4]
  note b = price_loop_stops_at_nonzero_price [where pre = "[]" and soup = "page_of [(''.price'', ''0'')]"
      and s = "''.price''" and t = "''0''" and v = 0 and rest = "tl common_selectors"
      and acc = "(None, None)", OF _ z extract_price_0, unfolded cs]
  have 1: "price_loop ?pg common_selectors (None, None) = Inr (Some 19.99, Some ''$19.99'')"
    using a by simp
  have "\<exists>ttl'. scrape_generic_product (Content ?pg) ''https://x.com/w'' None ''2024-01-01 12:00:00''
      = Inr \<lparr>title = ttl', url = ''https://x.com/w'', price = Some 19.99,
             price_text = Some ''$19.99'', timestamp = ''2024-01-01 12:00:00'', status = ''success''\<rparr>"
    using a sel title_loop_widget by simp
  moreover have "title (projr (scrape_generic_product (Content ?pg) ''https://x.com/w'' None ''2024-01-01 12:00:00'')) = ''Widget''"
    by (simp add: eval_page extract_price_call_us extract_price_19_99)
  ultimately have 2: "scrape_generic_product (Content ?pg) ''https://x.com/w'' None ''2024-01-01 12:00:00''
      = Inr \<lparr>title = ''Widget'', url = ''https://x.com/w'', price = Some 19.99,
             price_text = Some ''$19.99'', timestamp = ''2024-01-01 12:00:00'', status = ''success''\<rparr>"
    by auto
  have 3: "price_loop (page_of [(''.price'', ''0'')]) common_selectors (None, None)
      = price_loop (page_of [(''.price'', ''0'')]) (tl common_selectors) (Some 0, Some ''0'')"
    using b by simp
  from 1 2 3 show ?thesis by blast
qed

text \<open>
  C4: when the fetch fails with a \<open>RequestException\<close> (a timeout, a network failure, an
  HTTP error status), \<open>scrape_generic_product\<close> raises nothing and returns an observation
  whose status is \<open>error: \<close> followed by the message, so it begins with \<open>error\<close>, whose
  price and price text are \<open>None\<close> and whose title is the URL, for every URL, selector
  and time.
\<close>

theorem fetch_failure_is_an_observation:
  "scrape_generic_product (RequestException e) u sel now =
     Inr \<lparr>title = u, url = u, price = None, price_text = None, timestamp = now,
          status = ''error: '' @ e\<rparr>
   \<and> take 5 (status (projr (scrape_generic_product (RequestException e) u sel now))) = ''error''"
  by (simp add: scrape_generic_product_def)

theorem fetch_failure_is_an_observation_witness:
  "scrape_generic_product (RequestException ''Read timed out. (read timeout=10)'')
     ''https://x.com/cool-gadget'' (Some ''.a-price-whole'') ''2024-01-01 12:00:00'' =
     Inr \<lparr>title = ''https://x.com/cool-gadget'', url = ''https://x.com/cool-gadget'',
          price = None, price_text = None, timestamp = ''2024-01-01 12:00:00'',
          status = ''error: Read timed out. (read timeout=10)''\<rparr>"
  using fetch_failure_is_an_observation [of "''Read timed out. (read timeout=10)''"
      "''https://x.com/cool-gadget''" "Some ''.a-price-whole''" "''2024-01-01 12:00:00''"]
  by simp


lemma title_loop_no_raise:
  "\<forall>y\<in>set sels. \<forall>e. soup y \<noteq> Inl e \<Longrightarrow> \<exists>t. title_loop soup sels = Inr t"
proof (induction sels)
  case Nil
  then show ?case by simp
next
  case (Cons x sels)
  then show ?case
    by (cases "soup x") (auto split: option.splits)
qed

lemma price_loop_no_raise:
  "\<forall>y\<in>set sels. \<forall>e. soup y \<noteq> Inl e \<Longrightarrow> \<exists>r. price_loop soup sels acc = Inr r"
proof (induction sels arbitrary: acc)
  case Nil
  then show ?case by (cases acc) simp
next
  case (Cons x sels)
  show ?case
  proof (cases "soup x")
    case (Inl e)
    with Cons.prems show ?thesis by simp
  next
    case (Inr m)
    from Cons.prems have rest: "\<forall>y\<in>set sels. \<forall>e. soup y \<noteq> Inl e" by simp
    show ?thesis
    proof (cases m)
      case None
      with Inr Cons.IH [OF rest, of acc] show ?thesis
        by (simp add: price_loop_no_element)
    next
      case (Some t)
      with Inr have x: "soup x = Inr (Some t)" by simp
      show ?thesis
      proof (cases "truthy (extract_price t)")
        case True
        then show ?thesis using x by (simp add: price_loop_true_price)
      next
        case False
        then show ?thesis
          using x Cons.IH [OF rest, of "(extract_price t, Some t)"]
          by (simp add: price_loop_false_price)
      qed
    qed
  qed
qed

lemma scrape_no_raise:
  assumes "\<forall>y e. soup y \<noteq> Inl e"
  shows "\<exists>obs. scrape_generic_product (Content soup) u sel now = Inr obs"
proof -
  obtain r where "price_loop soup (selectors sel) (None, None) = Inr r"
    using price_loop_no_raise [of "selectors sel" soup "(None, None)"] assms by auto
  then obtain p pt where p: "price_loop soup (selectors sel) (None, None) = Inr (p, pt)"
    by (cases r) auto
  obtain ttl where t: "title_loop soup title_selectors = Inr ttl"
    using title_loop_no_raise [of title_selectors soup] assms by auto
  from scrape_content [OF p t, of u now] show ?thesis by blast
qed

lemma scrape_status:
  assumes "scrape_generic_product (Content soup) u sel now = Inr obs"
  shows "status obs = ''price_not_found'' \<longleftrightarrow> (\<forall>y\<in>set (selectors sel). passes soup y)"
proof -
  from assms obtain p pt where p: "price_loop soup (selectors sel) (None, None) = Inr (p, pt)"
    and st: "status obs = (if truthy p then ''success'' else ''price_not_found'')"
    by (auto simp: scrape_generic_product_def split: sum.splits)
  have "truthy p \<longleftrightarrow> (\<exists>y\<in>set (selectors sel). \<not> passes soup y)"
  proof
    assume "truthy p"
    show "\<exists>y\<in>set (selectors sel). \<not> passes soup y"
    proof (rule ccontr)
      assume "\<not> (\<exists>y\<in>set (selectors sel). \<not> passes soup y)"
      then have "\<forall>y\<in>set (selectors sel). passes soup y" by blast
      from price_loop_all_pass [OF this, of "(None, None)"] p \<open>truthy p\<close>
      show False by (simp add: truthy_def)
    qed
  next
    assume "\<exists>y\<in>set (selectors sel). \<not> passes soup y"
    with p show "truthy p" by (rule price_loop_not_pass)
  qed
  with st show ?thesis by auto
qed

lemma extract_price_sold_out: "extract_price ''Sold out'' = None"
  by (subst extract_price_def, subst findall.simps) (simp add: eval_price)


text \<open>
  C7 as stated, with \<open>price_not_found\<close> only when no locator yields a price that parses,
  does not hold. On the page whose \<open>.price\<close> element reads \<open>0\<close> that locator, one of the
  list, matches and its text parses to the number 0, and the status of the observation
  is \<open>price_not_found\<close>.
\<close>

theorem zero_price_not_found_counterexample:
  "''.price'' \<in> set (selectors None)
   \<and> page_of [(''.price'', ''0'')] ''.price'' = Inr (Some ''0'')
   \<and> extract_price ''0'' = Some 0
   \<and> scrape_generic_product (Content (page_of [(''.price'', ''0'')]))
        ''https://x.com/cool-gadget'' None ''2024-01-01 12:00:00''
      = Inr \<lparr>title = ''cool-gadget'', url = ''https://x.com/cool-gadget'', price = Some 0,
             price_text = Some ''0'', timestamp = ''2024-01-01 12:00:00'',
             status = ''price_not_found''\<rparr>"
  by (simp add: eval_page extract_price_0)


text \<open>
  C7, amended in its last clause. The caller's locator, when given, is the head of the
  list, before every built-in locator (without one the list is the built-in list). The
  loop takes the locators in the order of the list: a locator that matches nothing is
  passed with the state unchanged; a locator whose element text does not parse does not
  end the loop, the rest of the list is tried; and the loop stops at the first locator
  whose element gives a true price, every locator before it having matched nothing or
  given a false price. On a page that rejects no selector an observation is returned,
  and the status of a returned observation is \<open>price_not_found\<close> exactly when every
  locator of the list matched nothing or gave a price that is \<open>None\<close> or 0.
\<close>

theorem selector_chain_order:
  "(s \<noteq> [] \<longrightarrow> selectors (Some s) = s # common_selectors)
   \<and> selectors None = common_selectors
   \<and> (soup x = Inr (Some t) \<and> extract_price t = None
        \<longrightarrow> price_loop soup (x # rest) acc = price_loop soup rest (None, Some t))
   \<and> (soup x = Inr None \<longrightarrow> price_loop soup (x # rest) acc = price_loop soup rest acc)
   \<and> ((\<forall>y\<in>set pre. passes soup y) \<and> soup x = Inr (Some t) \<and> truthy (extract_price t)
        \<longrightarrow> price_loop soup (pre @ x # rest) acc = Inr (extract_price t, Some t))
   \<and> ((\<forall>y e. soup y \<noteq> Inl e)
        \<longrightarrow> (\<exists>obs. scrape_generic_product (Content soup) u sel now = Inr obs))
   \<and> (scrape_generic_product (Content soup) u sel now = Inr obs
        \<longrightarrow> (status obs = ''price_not_found'' \<longleftrightarrow> (\<forall>y\<in>set (selectors sel). passes soup y)))"
proof (intro conjI impI)
  show "s \<noteq> [] \<Longrightarrow> selectors (Some s) = s # common_selectors"
    by (simp add: selectors_def)
  show "selectors None = common_selectors"
    by (simp add: selectors_def)
  show "soup x = Inr (Some t) \<and> extract_price t = None
        \<Longrightarrow> price_loop soup (x # rest) acc = price_loop soup rest (None, Some t)"
    using price_loop_false_price [of soup x t rest acc] by (auto simp: truthy_def)
  show "soup x = Inr None \<Longrightarrow> price_loop soup (x # rest) acc = price_loop soup rest acc"
    by (rule price_loop_no_element)
  show "(\<forall>y\<in>set pre. passes soup y) \<and> soup x = Inr (Some t) \<and> truthy (extract_price t)
        \<Longrightarrow> price_loop soup (pre @ x # rest) acc = Inr (extract_price t, Some t)"
    using price_loop_first_true [of pre soup x t rest acc] by blast
  show "\<forall>y e. soup y \<noteq> Inl e
        \<Longrightarrow> \<exists>obs. scrape_generic_product (Content soup) u sel now = Inr obs"
    by (rule scrape_no_raise)
  show "scrape_generic_product (Content soup) u sel now = Inr obs
        \<Longrightarrow> status obs = ''price_not_found'' \<longleftrightarrow> (\<forall>y\<in>set (selectors sel). passes soup y)"
    by (rule scrape_status)
qed


theorem selector_chain_order_witness:
  "selectors (Some ''#our-price'') = ''#our-price'' # common_selectors
   \<and> price_loop (page_of [(''h1'', ''Widget''), (''#our-price'', ''Sold out''), (''[data-price]'', ''$19.99'')])
         (''#our-price'' # common_selectors) (None, None)
       = price_loop (page_of [(''h1'', ''Widget''), (''#our-price'', ''Sold out''), (''[data-price]'', ''$19.99'')])
           common_selectors (None, Some ''Sold out'')
   \<and> price_loop (page_of [(''h1'', ''Widget''), (''#our-price'', ''Sold out''), (''[data-price]'', ''$19.99'')])
         (''#our-price'' # common_selectors) (None, None)
       = Inr (Some 19.99, Some ''$19.99'')
   \<and> price_loop (page_of [(''.price'', ''Call us'')]) common_selectors (None, Some ''x'')
       = price_loop (page_of [(''.price'', ''Call us'')]) (tl common_selectors) (None, Some ''Call us'')
   \<and> scrape_generic_product (Content (page_of [(''.price'', ''Call us'')]))
        ''https://x.com/cool-gadget'' None ''2024-01-01 12:00:00''
      = Inr \<lparr>title = ''cool-gadget'', url = ''https://x.com/cool-gadget'', price = None,
             price_text = Some ''Call us'', timestamp = ''2024-01-01 12:00:00'',
             status = ''price_not_found''\<rparr>
   \<and> list_all (passes (page_of [(''.price'', ''Call us'')])) (selectors None)"
proof -
  let ?pg = "page_of [(''h1'', ''Widget''), (''#our-price'', ''Sold out''), (''[data-price]'', ''$19.99'')]"
  let ?pg2 = "page_of [(''.price'', ''Call us'')]"
  let ?obs = "\<lparr>title = ''cool-gadget'', url = ''https://x.com/cool-gadget'', price = None,
             price_text = Some ''Call us'', timestamp = ''2024-01-01 12:00:00'',
             status = ''price_not_found''\<rparr>"
  let ?pre = "[''#our-price'', ''.price'', ''.a-price-whole'']"
  have cs: "?pre @ ''[data-price]'' # drop 3 common_selectors = ''#our-price'' # common_selectors"
    "''.price'' # tl common_selectors = common_selectors"
    by (simp_all add: common_selectors_def)
  note A = selector_chain_order [where s = "''#our-price''" and soup = ?pg and x = "''#our-price''"
      and t = "''Sold out''" and rest = common_selectors and acc = "(None, None)"]
  note B = selector_chain_order [where soup = ?pg and pre = ?pre and x = "''[data-price]''"
      and t = "''$19.99''" and rest = "drop 3 common_selectors" and acc = "(None, None)",
      unfolded cs]
  note C = selector_chain_order [where soup = ?pg2 and x = "''.price''" and t = "''Call us''"
      and rest = "tl common_selectors" and acc = "(None, Some ''x'')" and sel = None
      and u = "''https://x.com/cool-gadget''" and now = "''2024-01-01 12:00:00''"
      and obs = ?obs, unfolded cs]
  have 1: "selectors (Some ''#our-price'') = ''#our-price'' # common_selectors"
    using A by simp
  have "?pg ''#our-price'' = Inr (Some ''Sold out'')"
    by (simp add: page_of_def)
  then have 2: "price_loop ?pg (''#our-price'' # common_selectors) (None, None)
       = price_loop ?pg common_selectors (None, Some ''Sold out'')"
    using A extract_price_sold_out by blast
  have "\<forall>y\<in>set ?pre. passes ?pg y"
    by (simp add: passes_def page_of_def extract_price_sold_out truthy_def)
  moreover have "?pg ''[data-price]'' = Inr (Some ''$19.99'')"
    by (simp add: page_of_def)
  moreover have "truthy (extract_price ''$19.99'')"
    by (simp add: extract_price_19_99 truthy_def)
  ultimately have 3: "price_loop ?pg (''#our-price'' # common_selectors) (None, None)
       = Inr (Some 19.99, Some ''$19.99'')"
    using B extract_price_19_99 by simp
  have "?pg2 ''.price'' = Inr (Some ''Call us'')"
    by (simp add: page_of_def)
  then have 4: "price_loop ?pg2 common_selectors (None, Some ''x'')
       = price_loop ?pg2 (tl common_selectors) (None, Some ''Call us'')"
    using C extract_price_call_us by blast
  have 5: "scrape_generic_product (Content ?pg2) ''https://x.com/cool-gadget'' None
      ''2024-01-01 12:00:00'' = Inr ?obs"
    by (simp add: eval_page extract_price_call_us)
  then have "\<forall>y\<in>set (selectors None). passes ?pg2 y"
    using C by simp
  then have 6: "list_all (passes ?pg2) (selectors None)"
    by (simp add: list_all_iff)
  from 1 2 3 4 5 6 show ?thesis by blast
qed


text \<open>
  C10: there are pages on which the observation has status \<open>price_not_found\<close>, price 0 and
  a price text. Whenever the loop has passed every locator before \<open>s\<close>, the element of \<open>s\<close>
  has a text that parses to 0 and no later locator matches, the observation returned has
  status \<open>price_not_found\<close>, price 0 (not \<open>None\<close>) and as price text the text of that last
  matched element.
\<close>

theorem price_not_found_with_zero_price:
  assumes "selectors sel = pre @ s # post"
      and "\<forall>x\<in>set pre. passes soup x"
      and "soup s = Inr (Some t)"
      and "extract_price t = Some 0"
      and "\<forall>x\<in>set post. soup x = Inr None"
      and "title_loop soup title_selectors = Inr ttl"
  shows "\<exists>ttl'. scrape_generic_product (Content soup) u sel now =
           Inr \<lparr>title = ttl', url = u, price = Some 0, price_text = Some t, timestamp = now,
                status = ''price_not_found''\<rparr>"
proof -
  obtain acc' where
    "price_loop soup (pre @ s # post) (None, None) = price_loop soup (s # post) acc'"
    using price_loop_past [OF assms(2), of "(None, None)" "s # post"]
    by (auto simp: truthy_def)
  moreover have "price_loop soup (s # post) acc' = price_loop soup post (Some 0, Some t)"
    using price_loop_false_price [of soup s t post acc'] assms(3,4) by (simp add: truthy_def)
  moreover have "price_loop soup post (Some 0, Some t) = Inr (Some 0, Some t)"
    using assms(5) by (rule price_loop_no_match)
  ultimately have "price_loop soup (selectors sel) (None, None) = Inr (Some 0, Some t)"
    using assms(1) by simp
  from scrape_content [OF this assms(6), of u now] show ?thesis
    by (auto simp: truthy_def)
qed

theorem price_not_found_with_zero_price_witness:
  "scrape_generic_product
     (Content (page_of [(''h1'', ''Widget''), (''.price'', ''Call us''), (''.product-price'', ''$0.00'')]))
     ''https://x.com/w'' None ''2024-01-01 12:00:00''
   = Inr \<lparr>title = ''Widget'', url = ''https://x.com/w'', price = Some 0,
          price_text = Some ''$0.00'', timestamp = ''2024-01-01 12:00:00'',
          status = ''price_not_found''\<rparr>"
proof -
  let ?pg = "page_of [(''h1'', ''Widget''), (''.price'', ''Call us''), (''.product-price'', ''$0.00'')]"
  let ?pre = "[''.price'', ''.a-price-whole'', ''[data-price]'']"
  have sel: "selectors None = ?pre @ ''.product-price'' # drop 4 common_selectors"
    by (simp add: selectors_def common_selectors_def)
  have pre: "\<forall>x\<in>set ?pre. passes ?pg x"
    by (simp add: passes_def page_of_def extract_price_call_us truthy_def)
  have s: "?pg ''.product-price'' = Inr (Some ''$0.00'')"
    by (simp add: page_of_def)
  have post: "\<forall>x\<in>set (drop 4 common_selectors). ?pg x = Inr None"
    by (simp add: common_selectors_def page_of_def)
  have "\<exists>ttl'. scrape_generic_product (Content ?pg) ''https://x.com/w'' None ''2024-01-01 12:00:00''
     = Inr \<lparr>title = ttl', url = ''https://x.com/w'', price = Some 0,
          price_text = Some ''$0.00'', timestamp = ''2024-01-01 12:00:00'',
          status = ''price_not_found''\<rparr>"
    using price_not_found_with_zero_price [where soup = ?pg, OF sel pre s extract_price_0_00 post
        title_loop_widget]
    by simp
  moreover have "title (projr (scrape_generic_product (Content ?pg) ''https://x.com/w'' None
      ''2024-01-01 12:00:00'')) = ''Widget''"
    by (simp add: eval_page extract_price_call_us extract_price_0_00)
  ultimately show ?thesis by auto
qed















section \<open>The store\<close>

lemma set_drop_duplicates: "set (drop_duplicates rs) \<subseteq> set rs"
  by (induction rs) auto

lemma keys_drop_duplicates: "key ` set (drop_duplicates rs) = key ` set rs"
  by (induction rs) auto

lemma distinct_drop_duplicates: "distinct (map key (drop_duplicates rs))"
proof (induction rs)
  case Nil
  then show ?case by simp
next
  case (Cons r rs)
  have "key r \<notin> key ` set rs \<Longrightarrow> key r \<notin> key ` set (drop_duplicates rs)"
    by (simp add: keys_drop_duplicates)
  with Cons show ?case by auto
qed

lemma drop_duplicates_distinct: "distinct (map key rs) \<Longrightarrow> drop_duplicates rs = rs"
  by (induction rs) auto

lemma filter_key_drop_duplicates:
  "filter (\<lambda>x. key x = k) (drop_duplicates rs) =
     (case filter (\<lambda>x. key x = k) rs of [] \<Rightarrow> [] | y # ys \<Rightarrow> [last (y # ys)])"
proof (induction rs)
  case Nil
  then show ?case by simp
next
  case (Cons r rs)
  show ?case
  proof (cases "key r \<in> set (map key rs)")
    case True
    show ?thesis
    proof (cases "key r = k")
      case kr: True
      with True have "filter (\<lambda>x. key x = k) rs \<noteq> []"
        by (auto simp: filter_empty_conv)
      with True kr Cons.IH show ?thesis
        by (auto split: list.splits)
    next
      case False
      with True Cons.IH show ?thesis by simp
    qed
  next
    case False
    show ?thesis
    proof (cases "key r = k")
      case kr: True
      have "key x \<noteq> k" if "x \<in> set rs" for x
        using that False kr by (metis image_eqI set_map)
      then have e: "filter (\<lambda>x. key x = k) rs = []"
        by (simp add: filter_empty_conv)
      with Cons.IH have "filter (\<lambda>x. key x = k) (drop_duplicates rs) = []"
        by simp
      with False kr e show ?thesis by simp
    next
      case nk: False
      with False Cons.IH show ?thesis by simp
    qed
  qed
qed

lemma length_drop_duplicates: "length (drop_duplicates rs) = card (key ` set rs)"
proof -
  have "length (drop_duplicates rs) = length (map key (drop_duplicates rs))"
    by simp
  also have "\<dots> = card (set (map key (drop_duplicates rs)))"
    using distinct_drop_duplicates [of rs] by (simp only: distinct_card)
  also have "\<dots> = card (key ` set rs)"
    by (simp add: keys_drop_duplicates)
  finally show ?thesis .
qed

lemma length_drop_duplicates_replace:
  assumes "key r \<in> key ` set ex"
  shows "length (drop_duplicates (ex @ [r])) \<le> length ex"
    and "distinct (map key ex) \<Longrightarrow> length (drop_duplicates (ex @ [r])) = length ex"
proof -
  have "key ` set (ex @ [r]) = key ` set ex"
    using assms by auto
  then have l: "length (drop_duplicates (ex @ [r])) = card (key ` set ex)"
    by (simp only: length_drop_duplicates)
  have "card (key ` set ex) \<le> card (set ex)"
    by (rule card_image_le) simp
  also have "\<dots> \<le> length ex"
    by (rule card_length)
  finally show "length (drop_duplicates (ex @ [r])) \<le> length ex"
    using l by simp
  assume "distinct (map key ex)"
  then have "card (set (map key ex)) = length (map key ex)"
    by (rule distinct_card)
  then show "length (drop_duplicates (ex @ [r])) = length ex"
    using l by simp
qed

lemma drop_duplicates_idem: "drop_duplicates (drop_duplicates rs) = drop_duplicates rs"
  by (rule drop_duplicates_distinct) (rule distinct_drop_duplicates)

lemma save_to_csv_readable:
  assumes "file = None \<and> ex = [] \<or> (\<exists>f. file = Some f \<and> read_csv f = Inr ex)"
  shows "save_to_csv read_csv to_csv file data =
           Inr (Some (to_csv (drop_duplicates (ex @ data))), drop_duplicates (ex @ data))"
  using assms by (auto simp: save_to_csv_def)

lemmas eval_rows = laptop_row_def mouse_row_def laptop_row_again_def timeout_row_def key_def

lemma save_laptop_again:
  "save_to_csv Inr id (Some [laptop_row, mouse_row]) [laptop_row_again]
     = Inr (Some [mouse_row, laptop_row_again], [mouse_row, laptop_row_again])"
  by (simp add: save_to_csv_def eval_rows)

text \<open>
  C1: \<open>save_to_csv\<close> on a file that is missing or holds the rows \<open>ex\<close> writes and returns
  the table \<open>df\<close> merged from \<open>ex\<close> and the new rows. In \<open>df\<close> no two rows have the same
  (url, timestamp) key, the keys are those of the old and the new rows, and for every
  key the one row of \<open>df\<close> with it is the last row with that key of the old rows followed
  by the new ones: a new row wins over an old one, and among new rows the later one.
  Appending one row whose key an old row has puts that row in place of the old one, and
  the table does not get longer than the old one (it keeps its length when the old
  rows had distinct keys).
\<close>

theorem save_to_csv_keeps_last_per_key:
  assumes "file = None \<and> ex = [] \<or> (\<exists>f. file = Some f \<and> read_csv f = Inr ex)"
  shows "\<exists>df. save_to_csv read_csv to_csv file data = Inr (Some (to_csv df), df)
           \<and> distinct (map key df)
           \<and> key ` set df = key ` set (ex @ data)
           \<and> set df \<subseteq> set (ex @ data)
           \<and> (\<forall>k. filter (\<lambda>x. key x = k) df =
                  (case filter (\<lambda>x. key x = k) (ex @ data) of
                     [] \<Rightarrow> [] | y # ys \<Rightarrow> [last (y # ys)]))
           \<and> (\<forall>r\<in>set data.
                  filter (\<lambda>x. key x = key r) df = [last (filter (\<lambda>x. key x = key r) data)])
           \<and> (\<forall>r. data = [r] \<and> key r \<in> key ` set ex \<longrightarrow>
                  filter (\<lambda>x. key x = key r) df = [r] \<and> length df \<le> length ex
                  \<and> (distinct (map key ex) \<longrightarrow> length df = length ex))"
proof -
  let ?df = "drop_duplicates (ex @ data)"
  have new: "filter (\<lambda>x. key x = key r) ?df = [last (filter (\<lambda>x. key x = key r) data)]"
    if "r \<in> set data" for r
  proof -
    from that have ne: "filter (\<lambda>x. key x = key r) data \<noteq> []"
      by (auto simp: filter_empty_conv)
    then have "filter (\<lambda>x. key x = key r) (ex @ data) \<noteq> []"
      by simp
    then have "filter (\<lambda>x. key x = key r) ?df
               = [last (filter (\<lambda>x. key x = key r) (ex @ data))]"
      by (simp add: filter_key_drop_duplicates split: list.splits)
    with ne show ?thesis by simp
  qed
  have one: "filter (\<lambda>x. key x = key r) ?df = [r] \<and> length ?df \<le> length ex
             \<and> (distinct (map key ex) \<longrightarrow> length ?df = length ex)"
    if "data = [r] \<and> key r \<in> key ` set ex" for r
    using that new [of r] length_drop_duplicates_replace [of r ex] by simp
  show ?thesis
    using save_to_csv_readable [OF assms, of to_csv data] distinct_drop_duplicates [of "ex @ data"]
      keys_drop_duplicates [of "ex @ data"] set_drop_duplicates [of "ex @ data"]
      filter_key_drop_duplicates [of _ "ex @ data"] new one
    by (intro exI [of _ ?df]) blast
qed

theorem save_to_csv_keeps_last_per_key_witness:
  "save_to_csv Inr id (Some [laptop_row, mouse_row]) [laptop_row_again]
     = Inr (Some [mouse_row, laptop_row_again], [mouse_row, laptop_row_again])
   \<and> key laptop_row_again = key laptop_row
   \<and> distinct (map key [mouse_row, laptop_row_again])
   \<and> filter (\<lambda>x. key x = key laptop_row) [mouse_row, laptop_row_again] = [laptop_row_again]
   \<and> length [mouse_row, laptop_row_again] = length [laptop_row, mouse_row]"
proof -
  have k: "key laptop_row_again = key laptop_row"
    by (simp add: eval_rows)
  have d: "distinct (map key [laptop_row, mouse_row])"
    by (simp add: eval_rows)
  have m: "key laptop_row_again \<in> key ` set [laptop_row, mouse_row]"
    using k by simp
  have f: "Some [laptop_row, mouse_row] = None \<and> [laptop_row, mouse_row] = []
           \<or> (\<exists>f. Some [laptop_row, mouse_row] = Some f \<and> Inr f = Inr [laptop_row, mouse_row])"
    by simp
  from save_to_csv_keeps_last_per_key [where read_csv = Inr and to_csv = id
      and data = "[laptop_row_again]", OF f]
  obtain df where df: "save_to_csv Inr id (Some [laptop_row, mouse_row]) [laptop_row_again]
      = Inr (Some (id df), df)"
    and dd: "distinct (map key df)"
    and one: "\<forall>r. [laptop_row_again] = [r] \<and> key r \<in> key ` set [laptop_row, mouse_row] \<longrightarrow>
                  filter (\<lambda>x. key x = key r) df = [r] \<and> length df \<le> length [laptop_row, mouse_row]
                  \<and> (distinct (map key [laptop_row, mouse_row]) \<longrightarrow> length df = length [laptop_row, mouse_row])"
    by blast
  from df have e: "df = [mouse_row, laptop_row_again]"
    by (simp add: save_laptop_again)
  from one m d have "filter (\<lambda>x. key x = key laptop_row_again) df = [laptop_row_again]"
    and "length df = length [laptop_row, mouse_row]"
    by blast+
  with df dd e k show ?thesis by simp
qed

text \<open>
  C9 as stated, with a result that holds exactly the new observations, does not hold.
  Two new rows with one key, saved to a missing file, give a table with the later row
  alone: the duplicates among the new rows are dropped as well.
\<close>

theorem save_to_missing_file_counterexample:
  "key laptop_row = key laptop_row_again
   \<and> price laptop_row = Some 899.99
   \<and> price laptop_row_again = Some 879.99
   \<and> save_to_csv Inr id None [laptop_row, laptop_row_again]
       = Inr (Some [laptop_row_again], [laptop_row_again])"
  by (simp add: save_to_csv_def eval_rows)

text \<open>
  C9, amended: on a missing file \<open>save_to_csv\<close> raises nothing, whatever \<open>read_csv\<close> would
  do, and behaves as on a file that holds the empty table. Its result is made of new
  observations only, one for every key of the new observations, the last one with that
  key: exactly the new observations when their keys are distinct. \<open>load_data\<close> on a
  missing file raises nothing either and loads no table.
\<close>

theorem save_to_missing_file:
  "save_to_csv read_csv to_csv None data
     = Inr (Some (to_csv (drop_duplicates data)), drop_duplicates data)
   \<and> (read_csv f = Inr [] \<longrightarrow>
        save_to_csv read_csv to_csv None data = save_to_csv read_csv to_csv (Some f) data)
   \<and> (distinct (map key data) \<longrightarrow>
        save_to_csv read_csv to_csv None data = Inr (Some (to_csv data), data))
   \<and> set (drop_duplicates data) \<subseteq> set data
   \<and> key ` set (drop_duplicates data) = key ` set data
   \<and> (\<forall>r\<in>set data.
          filter (\<lambda>x. key x = key r) (drop_duplicates data)
          = [last (filter (\<lambda>x. key x = key r) data)])
   \<and> load_data read_csv to_datetime None = Inr (False, None)"
proof -
  have "filter (\<lambda>x. key x = key r) (drop_duplicates data)
          = [last (filter (\<lambda>x. key x = key r) data)]" if "r \<in> set data" for r
  proof -
    from that have "filter (\<lambda>x. key x = key r) data \<noteq> []"
      by (auto simp: filter_empty_conv)
    then show ?thesis
      by (simp add: filter_key_drop_duplicates split: list.splits)
  qed
  then show ?thesis
    using set_drop_duplicates [of data] keys_drop_duplicates [of data]
    by (simp add: save_to_csv_def load_data_def drop_duplicates_distinct)
qed

theorem save_to_missing_file_witness:
  "save_to_csv Inr id None [laptop_row, mouse_row, timeout_row]
     = Inr (Some [laptop_row, mouse_row, timeout_row], [laptop_row, mouse_row, timeout_row])
   \<and> save_to_csv Inr id None [laptop_row, mouse_row, laptop_row_again]
     = Inr (Some [mouse_row, laptop_row_again], [mouse_row, laptop_row_again])
   \<and> save_to_csv Inr id None [laptop_row, mouse_row]
     = save_to_csv Inr id (Some []) [laptop_row, mouse_row]
   \<and> load_data Inr id None = Inr (False, None)"
proof -
  have d: "distinct (map key [laptop_row, mouse_row, timeout_row])"
    by (simp add: eval_rows)
  have dd: "drop_duplicates [laptop_row, mouse_row, laptop_row_again] = [mouse_row, laptop_row_again]"
    by (simp add: eval_rows)
  have e: "Inr [] = (Inr [] :: exn + string observation list)"
    by (rule refl)
  note A = save_to_missing_file [where read_csv = Inr and to_csv = id and to_datetime = id
      and data = "[laptop_row, mouse_row, timeout_row]"]
  note B = save_to_missing_file [where read_csv = Inr and to_csv = id and to_datetime = id
      and data = "[laptop_row, mouse_row, laptop_row_again]", unfolded dd]
  note C = save_to_missing_file [where read_csv = Inr and to_csv = id and to_datetime = id
      and data = "[laptop_row, mouse_row]" and f = "[]"]
  from A [THEN conjunct2, THEN conjunct2, THEN conjunct1] d
  have 1: "save_to_csv Inr id None [laptop_row, mouse_row, timeout_row]
     = Inr (Some [laptop_row, mouse_row, timeout_row], [laptop_row, mouse_row, timeout_row])"
    by simp
  from B [THEN conjunct1]
  have 2: "save_to_csv Inr id None [laptop_row, mouse_row, laptop_row_again]
     = Inr (Some [mouse_row, laptop_row_again], [mouse_row, laptop_row_again])"
    by simp
  from C [THEN conjunct2, THEN conjunct1] e
  have 3: "save_to_csv Inr id None [laptop_row, mouse_row]
     = save_to_csv Inr id (Some []) [laptop_row, mouse_row]"
    by (rule mp)
  from C [THEN conjunct2, THEN conjunct2, THEN conjunct2, THEN conjunct2, THEN conjunct2,
      THEN conjunct2]
  have 4: "load_data Inr id None = Inr (False, None)" .
  from 1 2 3 4 show ?thesis by (intro conjI)
qed












end
